theory Spec2Isabelle
  imports Complex_Main "HOL-Library.AList"
begin

section \<open>Numbers of the Python runtime\<close>

text \<open>
  The ledger of \<^verbatim>\<open>start.py\<close> moves every amount through three number
  formats: \<^verbatim>\<open>Decimal\<close> values computed in the default decimal context
  (28 significant digits, \<^verbatim>\<open>ROUND_HALF_EVEN\<close>), binary64 floats written into
  the sheet cells by \<^verbatim>\<open>float(...)\<close>, and the shortest decimal text of a
  float read back with \<^verbatim>\<open>Decimal(str(...))\<close>. A finite number of any of
  the three formats is modelled by its value, a rational.
\<close>

datatype error = InvalidOperation | ValueError | NonFinite

text \<open>Rounding a rational to the nearest integer, ties to the even neighbour.\<close>

definition round_half_even :: "rat \<Rightarrow> int" where
  "round_half_even x =
     (let f = \<lfloor>x\<rfloor>; d = x - of_int f
      in if d < 1 / 2 then f else if 1 / 2 < d then f + 1 else if even f then f else f + 1)"

text \<open>\<open>ndigits b n\<close> is the number of base-\<open>b\<close> digits of a positive integer.\<close>

function ndigits :: "int \<Rightarrow> int \<Rightarrow> int" where
  "ndigits b n = (if 0 < n \<and> 1 < b then ndigits b (n div b) + 1 else 0)"
  by pat_completeness auto
termination
proof (relation "measure (\<lambda>(b, n). nat n)")
  show "wf (measure (\<lambda>(b, n). nat n))" by simp
next
  fix b n :: int
  assume h: "0 < n \<and> 1 < b"
  then have "n div b < n" by (simp add: int_div_less_self)
  with h show "((b, n div b), (b, n)) \<in> measure (\<lambda>(b, n). nat n)" by simp
qed

declare ndigits.simps [simp del]

text \<open>\<open>ilog b a\<close> is the integer part of the base-\<open>b\<close> logarithm of a positive rational.\<close>

definition ilog :: "int \<Rightarrow> rat \<Rightarrow> int" where
  "ilog b a =
     (let (p, q) = quotient_of a;
          k = ndigits b p - ndigits b q
      in if power_int (of_int b) k \<le> a then k else k - 1)"

text \<open>The first power of two beyond the binary64 range, \<open>2^1024\<close>, written out.\<close>

definition float_limit :: rat where
  "float_limit = 179769313486231590772930519078902473361797697894230657273430081157732675805500963132708477322407536021120113879871393357658789768814416622492847430639474124377767893424865485276302219601246094119453082952085005768838150682342462881473913110540827237163350510684586298239947245938479716304835356329624224137216"

text \<open>
  \<^verbatim>\<open>float(d)\<close> for a finite \<^verbatim>\<open>Decimal\<close>: the nearest binary64 value
  (53-bit significand, smallest exponent \<open>-1074\<close>, ties to even). Python returns
  \<^verbatim>\<open>inf\<close> when the rounded value reaches \<open>float_limit\<close>; that is \<open>None\<close> here.
\<close>

definition py_float :: "rat \<Rightarrow> rat option" where
  "py_float x =
     (if x = 0 then Some 0
      else let a = \<bar>x\<bar>;
               q = max (ilog 2 a - 52) (- 1074);
               r = of_int (round_half_even (a / power_int 2 q)) * power_int 2 q
           in if float_limit \<le> r then None else Some (sgn x * r))"

text \<open>
  \<^verbatim>\<open>str(f)\<close> of a float prints the shortest digit string that converts back
  to \<open>f\<close>, and of those the one nearest to \<open>f\<close>. \<open>repr_candidate a n\<close> looks among
  the \<open>n\<close>-digit decimals around \<open>a\<close>; \<open>repr_search\<close> tries \<open>n = 1, 2, \<dots>\<close>
  (17 digits always identify a binary64 value).
\<close>

definition repr_candidate :: "rat \<Rightarrow> nat \<Rightarrow> rat option" where
  "repr_candidate a n =
     (let s = power_int 10 (ilog 10 a - int n + 1);
          lo = of_int \<lfloor>a / s\<rfloor> * s;
          hi = lo + s;
          okl = (py_float lo = Some a);
          okh = (py_float hi = Some a)
      in if okl \<and> okh
         then Some (if a - lo < hi - a then lo
                    else if hi - a < a - lo then hi
                    else if even \<lfloor>a / s\<rfloor> then lo else hi)
         else if okl then Some lo
         else if okh then Some hi
         else None)"

fun repr_search :: "rat \<Rightarrow> nat \<Rightarrow> nat \<Rightarrow> rat" where
  "repr_search a n 0 = a"
| "repr_search a n (Suc fuel) =
     (case repr_candidate a n of
        Some c \<Rightarrow> c
      | None \<Rightarrow> repr_search a (Suc n) fuel)"

text \<open>\<^verbatim>\<open>Decimal(str(f))\<close> for a finite float \<open>f\<close>.\<close>

definition dec_of_float :: "rat \<Rightarrow> rat" where
  "dec_of_float f = (if f = 0 then 0 else sgn f * repr_search \<bar>f\<bar> 1 17)"

text \<open>
  The decimal context: the exact result of an operation is rounded to 28 significant
  digits. (The exponent bounds \<open>\<plusminus>999999\<close> of the context are far outside what sums
  and quotients of binary64 values reach and are not modelled.)
\<close>

definition round_prec :: "rat \<Rightarrow> rat" where
  "round_prec x =
     (if x = 0 then 0
      else let e = ilog 10 \<bar>x\<bar> - 27
           in of_int (round_half_even (x / power_int 10 e)) * power_int 10 e)"

definition dec_add :: "rat \<Rightarrow> rat \<Rightarrow> rat" where
  "dec_add x y = round_prec (x + y)"

definition dec_sub :: "rat \<Rightarrow> rat \<Rightarrow> rat" where
  "dec_sub x y = round_prec (x - y)"

definition dec_mul :: "rat \<Rightarrow> rat \<Rightarrow> rat" where
  "dec_mul x y = round_prec (x * y)"

definition dec_div :: "rat \<Rightarrow> rat \<Rightarrow> rat" where
  "dec_div x y = round_prec (x / y)"

text \<open>
  \<^verbatim>\<open>round(d, 2)\<close> is \<^verbatim>\<open>d.quantize(Decimal("0.01"))\<close>: the value rounded to
  hundredths, and \<^verbatim>\<open>InvalidOperation\<close> when the coefficient of the result
  needs more than 28 digits.
\<close>

definition round2 :: "rat \<Rightarrow> error + rat" where
  "round2 x =
     (let c = round_half_even (x * 100)
      in if 10 ^ 28 \<le> \<bar>c\<bar> then Inl InvalidOperation else Inr (of_int c / 100))"

section \<open>The workbook\<close>

text \<open>
  \<^verbatim>\<open>LedgerStorage\<close> keeps one workbook with two sheets. Below the header row
  the sheet \<^verbatim>\<open>Transactions\<close> holds one row
  \<^verbatim>\<open>[user_id, type, amount, timestamp]\<close> per event and the sheet
  \<^verbatim>\<open>Summary\<close> one row
  \<^verbatim>\<open>[user_id, deposits, withdrawals, balance, roi_percent, updated_at]\<close> per
  user. A state of the ledger is the content of the two sheets; loading the saved
  workbook is taken to give back the cell values that were written. The numeric cells
  hold floats. The three call sites of \<^verbatim>\<open>add_transaction\<close> pass the type
  strings \<^verbatim>\<open>"deposit"\<close> and \<^verbatim>\<open>"withdraw"\<close> only, which are the two
  constructors of \<open>tx_kind\<close>. The clock readings of \<^verbatim>\<open>datetime.now()\<close> are
  arguments of the operations.
\<close>

datatype tx_kind = Deposit | Withdraw

record tx_row =
  tx_user :: int
  tx_type :: tx_kind
  tx_amount :: rat
  tx_time :: string

record summary_row =
  s_user :: int
  s_deposits :: rat
  s_withdrawals :: rat
  s_balance :: rat
  s_roi :: rat
  s_updated :: string

record ledger =
  transactions :: "tx_row list"
  summary :: "summary_row list"


subsection \<open>\<^verbatim>\<open>_rebuild_summary\<close>\<close>

text \<open>
  The dictionary \<^verbatim>\<open>user_stats\<close> maps a user to the two running totals. It is an
  association list in insertion order, as a Python \<^verbatim>\<open>dict\<close> is.
\<close>

record stats =
  deposit :: rat
  withdraw :: rat

definition stats_add :: "stats \<Rightarrow> tx_kind \<Rightarrow> rat \<Rightarrow> stats" where
  "stats_add st k amount =
     (case k of
        Deposit \<Rightarrow> st\<lparr>deposit := dec_add (deposit st) amount\<rparr>
      | Withdraw \<Rightarrow> st\<lparr>withdraw := dec_add (withdraw st) amount\<rparr>)"

text \<open>One turn of the loop over the transaction rows (a row whose user is falsy is skipped).\<close>

definition user_stats_step :: "(int \<times> stats) list \<Rightarrow> tx_row \<Rightarrow> (int \<times> stats) list" where
  "user_stats_step us row =
     (if tx_user row = 0 then us
      else let uid = tx_user row;
               amount = dec_of_float (tx_amount row);
               us1 = (if map_of us uid = None
                      then AList.update uid \<lparr>deposit = 0, withdraw = 0\<rparr> us else us)
           in case map_of us1 uid of
                None \<Rightarrow> us1
              | Some st \<Rightarrow> AList.update uid (stats_add st (tx_type row) amount) us1)"

definition user_stats :: "tx_row list \<Rightarrow> (int \<times> stats) list" where
  "user_stats rows = foldl user_stats_step [] rows"

definition roi_of :: "rat \<Rightarrow> rat \<Rightarrow> rat" where
  "roi_of deposits withdrawals =
     (if 0 < deposits
      then dec_mul (dec_div (dec_sub withdrawals deposits) deposits) 100
      else 0)"

text \<open>
  The row appended for one user. \<^verbatim>\<open>round(roi, 2)\<close> can raise; a \<^verbatim>\<open>float\<close>
  that is not finite does not raise in Python, but a sheet holding it is outside this
  model, and the operation ends with \<open>NonFinite\<close>.
\<close>

definition summary_row_of :: "string \<Rightarrow> int \<times> stats \<Rightarrow> error + summary_row" where
  "summary_row_of now p =
     (let uid = fst p;
          deposits = deposit (snd p);
          withdrawals = withdraw (snd p);
          balance = dec_sub deposits withdrawals;
          roi = roi_of deposits withdrawals
      in case round2 roi of
           Inl e \<Rightarrow> Inl e
         | Inr r \<Rightarrow>
            (case (py_float deposits, py_float withdrawals, py_float balance, py_float r) of
               (Some d, Some w, Some b, Some q) \<Rightarrow>
                 Inr \<lparr>s_user = uid, s_deposits = d, s_withdrawals = w, s_balance = b,
                      s_roi = q, s_updated = now\<rparr>
             | _ \<Rightarrow> Inl NonFinite))"

fun append_rows :: "string \<Rightarrow> (int \<times> stats) list \<Rightarrow> error + summary_row list" where
  "append_rows now [] = Inr []"
| "append_rows now (p # ps) =
     (case summary_row_of now p of
        Inl e \<Rightarrow> Inl e
      | Inr r \<Rightarrow>
         (case append_rows now ps of
            Inl e \<Rightarrow> Inl e
          | Inr rs \<Rightarrow> Inr (r # rs)))"

definition rebuild_summary :: "tx_row list \<Rightarrow> string \<Rightarrow> error + summary_row list" where
  "rebuild_summary rows now = append_rows now (sort_key fst (user_stats rows))"

subsection \<open>The mutations\<close>

text \<open>
  A mutation that raises leaves the saved workbook as it was: \<^verbatim>\<open>_save_wb\<close> is
  the last statement of both.
\<close>

definition add_transaction ::
  "ledger \<Rightarrow> int \<Rightarrow> tx_kind \<Rightarrow> rat \<Rightarrow> string \<Rightarrow> string \<Rightarrow> error + ledger" where
  "add_transaction s user_id ty amount timestamp now =
     (case py_float amount of
        None \<Rightarrow> Inl NonFinite
      | Some f \<Rightarrow>
         (let tx = transactions s @
                   [\<lparr>tx_user = user_id, tx_type = ty, tx_amount = f, tx_time = timestamp\<rparr>]
          in case rebuild_summary tx now of
               Inl e \<Rightarrow> Inl e
             | Inr sm \<Rightarrow> Inr \<lparr>transactions = tx, summary = sm\<rparr>))"


subsection \<open>The queries\<close>



text \<open>The slice \<^verbatim>\<open>rows[-limit:]\<close>, with Python's treatment of the start index.\<close>

definition slice_from_neg :: "'a list \<Rightarrow> int \<Rightarrow> 'a list" where
  "slice_from_neg rows limit =
     (let n = int (length rows);
          start = - limit;
          start' = (if start < 0 then max 0 (start + n) else min start n)
      in drop (nat start') rows)"

definition history_rows :: "tx_row list \<Rightarrow> int \<Rightarrow> (tx_kind \<times> rat \<times> string) list" where
  "history_rows rows user_id =
     map (\<lambda>row. (tx_type row, dec_of_float (tx_amount row), tx_time row))
       (filter (\<lambda>row. tx_user row \<noteq> 0 \<and> tx_user row = user_id) rows)"

definition get_user_history :: "ledger \<Rightarrow> int \<Rightarrow> int \<Rightarrow> (tx_kind \<times> rat \<times> string) list" where
  "get_user_history s user_id limit =
     rev (slice_from_neg (history_rows (transactions s) user_id) limit)"

subsection \<open>States of the ledger\<close>


section \<open>\<^verbatim>\<open>parse_amount\<close>\<close>

text \<open>
  A \<^verbatim>\<open>Decimal\<close> as the constructor builds it from text: sign, coefficient and
  exponent, or an infinity, or a NaN (quiet or signalling, with any payload). A
  character is its code point; the model covers the code points below 256, where the
  decimal digits are \<^verbatim>\<open>0\<close> to \<^verbatim>\<open>9\<close>. The exponent is an unbounded integer.
\<close>

datatype decimal = Finite bool int int | Infinity bool | NaN

fun dec_value :: "decimal \<Rightarrow> rat option" where
  "dec_value (Finite neg c e) = Some ((if neg then - 1 else 1) * of_int c * power_int 10 e)"
| "dec_value (Infinity neg) = None"
| "dec_value NaN = None"

text \<open>The characters \<^verbatim>\<open>str.strip()\<close> removes: those with \<^verbatim>\<open>isspace()\<close>.\<close>

definition is_space :: "char \<Rightarrow> bool" where
  "is_space c = ((of_char c :: int) \<in> set [9, 10, 11, 12, 13, 28, 29, 30, 31, 32, 133, 160])"

definition is_digit :: "char \<Rightarrow> bool" where
  "is_digit c = (48 \<le> (of_char c :: int) \<and> (of_char c :: int) \<le> 57)"

definition to_lower :: "char \<Rightarrow> char" where
  "to_lower c =
     (if 65 \<le> (of_char c :: int) \<and> (of_char c :: int) \<le> 90
      then char_of ((of_char c :: int) + 32) else c)"

definition strip :: "string \<Rightarrow> string" where
  "strip s = rev (dropWhile is_space (rev (dropWhile is_space s)))"

definition digits_value :: "string \<Rightarrow> int" where
  "digits_value ds = foldl (\<lambda>n c. 10 * n + ((of_char c :: int) - 48)) 0 ds"

text \<open>An optional sign in front of the rest of the text.\<close>

fun split_sign :: "string \<Rightarrow> bool \<times> string" where
  "split_sign [] = (False, [])"
| "split_sign (c # cs) =
     (if c = CHR ''-'' then (True, cs)
      else if c = CHR ''+'' then (False, cs)
      else (False, c # cs))"

text \<open>The exponent part: nothing, or \<^verbatim>\<open>E\<close>, an optional sign and at least one digit.\<close>

definition parse_exponent :: "string \<Rightarrow> int option" where
  "parse_exponent r =
     (case r of
        [] \<Rightarrow> Some 0
      | c # cs \<Rightarrow>
         if to_lower c = CHR ''e''
         then (let (neg, ds) = split_sign cs
               in if ds \<noteq> [] \<and> list_all is_digit ds
                  then Some (if neg then - digits_value ds else digits_value ds)
                  else None)
         else None)"

text \<open>Digits with at most one point and at least one digit, then the exponent part.\<close>

definition parse_number :: "bool \<Rightarrow> string \<Rightarrow> decimal option" where
  "parse_number neg body =
     (let ip = takeWhile is_digit body;
          r1 = dropWhile is_digit body;
          (fp, r2) = (case r1 of
                        [] \<Rightarrow> ([], [])
                      | c # cs \<Rightarrow>
                         if c = CHR ''.''
                         then (takeWhile is_digit cs, dropWhile is_digit cs)
                         else ([], r1))
      in if ip = [] \<and> fp = [] then None
         else case parse_exponent r2 of
                None \<Rightarrow> None
              | Some e \<Rightarrow> Some (Finite neg (digits_value (ip @ fp)) (e - int (length fp))))"

definition is_nan_text :: "string \<Rightarrow> bool" where
  "is_nan_text low =
     ((take 3 low = ''nan'' \<and> list_all is_digit (drop 3 low)) \<or>
      (take 4 low = ''snan'' \<and> list_all is_digit (drop 4 low)))"

text \<open>
  \<^verbatim>\<open>Decimal(text)\<close>: surrounding whitespace and all underscores are dropped;
  \<open>None\<close> is the \<^verbatim>\<open>InvalidOperation\<close> of a text that is no numeral.
\<close>

definition decimal_of_string :: "string \<Rightarrow> decimal option" where
  "decimal_of_string s =
     (let t = filter (\<lambda>c. c \<noteq> CHR ''_'') (strip s);
          (neg, body) = split_sign t;
          low = map to_lower body
      in if low = ''inf'' \<or> low = ''infinity'' then Some (Infinity neg)
         else if is_nan_text low then Some NaN
         else parse_number neg body)"

text \<open>\<^verbatim>\<open>value <= 0\<close>: an ordering comparison with a NaN raises.\<close>

fun dec_le_zero :: "decimal \<Rightarrow> error + bool" where
  "dec_le_zero (Finite neg c e) = Inr (neg \<or> c = 0)"
| "dec_le_zero (Infinity neg) = Inr neg"
| "dec_le_zero NaN = Inl InvalidOperation"

text \<open>
  \<^verbatim>\<open>value.quantize(Decimal("0.01"))\<close> in the default context: the coefficient
  at exponent \<open>-2\<close>, rounded half-even, must fit 28 digits.
\<close>

fun quantize_cents :: "decimal \<Rightarrow> error + decimal" where
  "quantize_cents (Finite neg c e) =
     (let k = round_half_even (of_int c * power_int 10 e * 100)
      in if 10 ^ 28 \<le> k then Inl InvalidOperation else Inr (Finite neg k (- 2)))"
| "quantize_cents (Infinity neg) = Inl InvalidOperation"
| "quantize_cents NaN = Inr NaN"

definition normalize_amount :: "string \<Rightarrow> string" where
  "normalize_amount raw = strip (map (\<lambda>c. if c = CHR '','' then CHR ''.'' else c) raw)"

definition parse_amount :: "string \<Rightarrow> error + decimal" where
  "parse_amount raw =
     (let normalized = normalize_amount raw
      in case decimal_of_string normalized of
           None \<Rightarrow> Inl InvalidOperation
         | Some v \<Rightarrow>
            (case dec_le_zero v of
               Inl e \<Rightarrow> Inl e
             | Inr True \<Rightarrow> Inl ValueError
             | Inr False \<Rightarrow> quantize_cents v))"

section \<open>Terms of the specification\<close>


text \<open>
  The scenario of the specification, with a second user in between: user 42 deposits
  1000.00, user 7 deposits 50.00, user 42 withdraws 300.00.
\<close>

definition scenario_ledger :: ledger where
  "scenario_ledger =
     \<lparr>transactions =
        [\<lparr>tx_user = 42, tx_type = Deposit, tx_amount = 1000, tx_time = ''t1''\<rparr>,
         \<lparr>tx_user = 7, tx_type = Deposit, tx_amount = 50, tx_time = ''t2''\<rparr>,
         \<lparr>tx_user = 42, tx_type = Withdraw, tx_amount = 300, tx_time = ''t3''\<rparr>],
      summary =
        [\<lparr>s_user = 7, s_deposits = 50, s_withdrawals = 0, s_balance = 50,
          s_roi = - 100, s_updated = ''t3''\<rparr>,
         \<lparr>s_user = 42, s_deposits = 1000, s_withdrawals = 300, s_balance = 700,
          s_roi = - 70, s_updated = ''t3''\<rparr>]\<rparr>"


text \<open>
  The value of the numeral in a raw text, after the normalisation of
  \<^verbatim>\<open>parse_amount\<close>; \<open>None\<close> when the text is not a finite decimal numeral
  (an infinity and a NaN have no value).
\<close>

definition parsed_value :: "string \<Rightarrow> rat option" where
  "parsed_value raw =
     (case decimal_of_string (normalize_amount raw) of
        Some (Finite neg c e) \<Rightarrow> dec_value (Finite neg c e)
      | _ \<Rightarrow> None)"










section \<open>The summary follows the log\<close>


































section \<open>Deleting a user\<close>






section \<open>Queries for a user without records\<close>



section \<open>The rows of the summary\<close>




section \<open>The history of a user\<close>

lemma slice_from_neg_positive:
  assumes "0 < limit"
  shows "slice_from_neg rows limit = drop (length rows - nat limit) rows"
proof -
  from assms have "nat (max 0 (- limit + int (length rows))) = length rows - nat limit"
    by auto
  with assms show ?thesis by (simp add: slice_from_neg_def Let_def)
qed

text \<open>
  With a limit of at least 1 the history is bounded by the limit and is the reversal of
  a suffix of the rows of the user in log order.
\<close>

lemma get_user_history_positive:
  assumes "0 < limit"
  shows "length (get_user_history s u limit) \<le> nat limit \<and>
         (\<exists>older. history_rows (transactions s) u = older @ rev (get_user_history s u limit))"
proof -
  let ?rows = "history_rows (transactions s) u"
  have "get_user_history s u limit = rev (drop (length ?rows - nat limit) ?rows)"
    by (simp add: get_user_history_def slice_from_neg_positive [OF assms])
  moreover have "?rows = take (length ?rows - nat limit) ?rows @ drop (length ?rows - nat limit) ?rows"
    by simp
  ultimately show ?thesis
    by (metis diff_diff_cancel diff_le_self length_drop length_rev linorder_le_cases
        diff_is_0_eq' rev_rev_ident)
qed

text \<open>
  Claim C5 at the limit 0: \<^verbatim>\<open>rows[-0:]\<close> is the whole list, and
  \<^verbatim>\<open>get_user_history(42, 0)\<close> returns both records of user 42, not at most 0.
\<close>

theorem get_user_history_limit_zero:
  "get_user_history scenario_ledger 42 0 =
     [(Withdraw, 300, ''t3''), (Deposit, 1000, ''t1'')] \<and>
   \<not> length (get_user_history scenario_ledger 42 0) \<le> 0"
proof -
  have "get_user_history scenario_ledger 42 0 =
     [(Withdraw, 300, ''t3''), (Deposit, 1000, ''t1'')]"
    by code_simp
  then show ?thesis by simp
qed

section \<open>Numerals with more than one point\<close>

lemma dot_not_digit: "is_digit c \<Longrightarrow> c \<noteq> CHR ''.''"
  by (auto simp: is_digit_def)

lemma dot_not_space: "\<not> is_space (CHR ''.'')"
  by (simp add: is_space_def)

lemma to_lower_dot: "to_lower c = CHR ''.'' \<longleftrightarrow> c = CHR ''.''"
proof
  assume h: "to_lower c = CHR ''.''"
  show "c = CHR ''.''"
  proof (rule ccontr)
    assume n: "c \<noteq> CHR ''.''"
    with h have up: "65 \<le> (of_char c :: int)" "(of_char c :: int) \<le> 90"
      and eq: "char_of ((of_char c :: int) + 32) = CHR ''.''"
      by (auto simp: to_lower_def split: if_splits)
    from eq have "(of_char (char_of ((of_char c :: int) + 32)) :: int) = of_char (CHR ''.'')"
      by simp
    with up show False by simp
  qed
next
  assume "c = CHR ''.''"
  then show "to_lower c = CHR ''.''" by (simp add: to_lower_def)
qed

lemma to_lower_not_dot: "to_lower c = CHR ''e'' \<Longrightarrow> c \<noteq> CHR ''.''"
  using to_lower_dot [of c] by auto

lemma count_dropWhile:
  "\<not> P x \<Longrightarrow> count_list (dropWhile P s) x = count_list s x"
  by (induction s) auto

lemma count_strip_dot: "count_list (strip s) (CHR ''.'') = count_list s (CHR ''.'')"
  by (simp add: strip_def count_dropWhile dot_not_space)

lemma count_filter_underscore:
  "count_list (filter (\<lambda>c. c \<noteq> CHR ''_'') s) (CHR ''.'') = count_list s (CHR ''.'')"
  by (induction s) auto

lemma count_split_sign:
  "count_list (snd (split_sign t)) (CHR ''.'') = count_list t (CHR ''.'')"
  by (cases t) auto

lemma count_digits_dot: "list_all is_digit ds \<Longrightarrow> count_list ds (CHR ''.'') = 0"
  by (induction ds) (auto dest: dot_not_digit)

lemma count_takeWhile_digit: "count_list (takeWhile is_digit s) (CHR ''.'') = 0"
  by (induction s) (auto dest: dot_not_digit)

lemma count_map_to_lower:
  "count_list (map to_lower s) (CHR ''.'') = count_list s (CHR ''.'')"
  by (induction s) (auto simp: to_lower_dot)

lemma parse_exponent_dots:
  assumes "parse_exponent r = Some e"
  shows "count_list r (CHR ''.'') = 0"
proof (cases r)
  case Nil
  then show ?thesis by simp
next
  case (Cons c cs)
  with assms have low: "to_lower c = CHR ''e''"
    and digs: "list_all is_digit (snd (split_sign cs))"
    by (auto simp: parse_exponent_def split: if_splits prod.splits)
  from digs have "count_list (snd (split_sign cs)) (CHR ''.'') = 0"
    by (rule count_digits_dot)
  then have "count_list cs (CHR ''.'') = 0"
    by (simp add: count_split_sign)
  with low Cons show ?thesis
    by (auto dest: to_lower_not_dot)
qed

lemma count_split_digits:
  "count_list s (CHR ''.'') = count_list (dropWhile is_digit s) (CHR ''.'')"
proof -
  have "count_list (takeWhile is_digit s @ dropWhile is_digit s) (CHR ''.'') =
        count_list (takeWhile is_digit s) (CHR ''.'') + count_list (dropWhile is_digit s) (CHR ''.'')"
    by (rule count_list_append)
  then show ?thesis by (simp add: count_takeWhile_digit)
qed

lemma parse_number_dots:
  assumes "parse_number neg body = Some d"
  shows "count_list body (CHR ''.'') \<le> 1"
proof (cases "dropWhile is_digit body")
  case Nil
  with count_split_digits [of body] show ?thesis by simp
next
  case (Cons c cs)
  show ?thesis
  proof (cases "c = CHR ''.''")
    case True
    with assms Cons obtain e where "parse_exponent (dropWhile is_digit cs) = Some e"
      by (auto simp: parse_number_def Let_def split: if_splits option.splits)
    then have "count_list (dropWhile is_digit cs) (CHR ''.'') = 0"
      by (rule parse_exponent_dots)
    with count_split_digits [of cs] have "count_list cs (CHR ''.'') = 0" by simp
    with True Cons count_split_digits [of body] show ?thesis by simp
  next
    case False
    with assms Cons obtain e where "parse_exponent (c # cs) = Some e"
      by (auto simp: parse_number_def Let_def split: if_splits option.splits)
    then have "count_list (c # cs) (CHR ''.'') = 0"
      by (rule parse_exponent_dots)
    with Cons count_split_digits [of body] show ?thesis by simp
  qed
qed

lemma is_nan_text_dots:
  assumes "is_nan_text low"
  shows "count_list low (CHR ''.'') = 0"
proof -
  from assms consider
      "take 3 low = ''nan''" "list_all is_digit (drop 3 low)"
    | "take 4 low = ''snan''" "list_all is_digit (drop 4 low)"
    by (auto simp: is_nan_text_def)
  then show ?thesis
  proof cases
    case 1
    have "count_list (take 3 low @ drop 3 low) (CHR ''.'') = 0"
      unfolding count_list_append using 1 by (simp add: count_digits_dot)
    then show ?thesis by simp
  next
    case 2
    have "count_list (take 4 low @ drop 4 low) (CHR ''.'') = 0"
      unfolding count_list_append using 2 by (simp add: count_digits_dot)
    then show ?thesis by simp
  qed
qed

lemma decimal_of_string_dots:
  assumes "decimal_of_string s = Some d"
  shows "count_list s (CHR ''.'') \<le> 1"
proof -
  define t where "t = filter (\<lambda>c. c \<noteq> CHR ''_'') (strip s)"
  define body where "body = snd (split_sign t)"
  define low where "low = map to_lower body"
  have cnt: "count_list s (CHR ''.'') = count_list body (CHR ''.'')"
    by (simp add: body_def t_def count_split_sign count_filter_underscore count_strip_dot)
  have lowcnt: "count_list low (CHR ''.'') = count_list body (CHR ''.'')"
    by (simp add: low_def count_map_to_lower)
  from assms consider "low = ''inf''" | "low = ''infinity''" | "is_nan_text low"
    | "parse_number (fst (split_sign t)) body = Some d"
    by (auto simp: decimal_of_string_def Let_def t_def body_def low_def
        split: prod.splits if_splits)
  then show ?thesis
  proof cases
    case 1
    with lowcnt cnt show ?thesis by simp
  next
    case 2
    with lowcnt cnt show ?thesis by simp
  next
    case 3
    from is_nan_text_dots [OF this] lowcnt cnt show ?thesis by simp
  next
    case 4
    from parse_number_dots [OF this] cnt show ?thesis by simp
  qed
qed

lemma count_comma_to_dot:
  "count_list (map (\<lambda>c. if c = CHR '','' then CHR ''.'' else c) raw) (CHR ''.'') =
     count_list raw (CHR '','') + count_list raw (CHR ''.'')"
  by (induction raw) auto

lemma comma_and_dot_invalid:
  assumes "CHR '','' \<in> set raw" and "CHR ''.'' \<in> set raw"
  shows "parse_amount raw = Inl InvalidOperation"
proof -
  from assms have "0 < count_list raw (CHR '','')" "0 < count_list raw (CHR ''.'')"
    using count_list_0_iff [of raw "CHR '',''"] count_list_0_iff [of raw "CHR ''.''"] by auto
  then have "2 \<le> count_list (normalize_amount raw) (CHR ''.'')"
    by (simp add: normalize_amount_def count_strip_dot count_comma_to_dot)
  with decimal_of_string_dots [of "normalize_amount raw"]
  have "decimal_of_string (normalize_amount raw) = None"
    by (cases "decimal_of_string (normalize_amount raw)") auto
  then show ?thesis by (simp add: parse_amount_def)
qed


section \<open>Validation of amounts\<close>

lemma digits_value_nonneg_aux:
  "0 \<le> n \<Longrightarrow> list_all is_digit ds \<Longrightarrow>
   0 \<le> foldl (\<lambda>n c. 10 * n + ((of_char c :: int) - 48)) n ds"
  by (induction ds arbitrary: n) (auto simp: is_digit_def)

lemma digits_value_nonneg: "list_all is_digit ds \<Longrightarrow> 0 \<le> digits_value ds"
  unfolding digits_value_def by (rule digits_value_nonneg_aux) simp

lemma takeWhile_all_digits: "list_all is_digit (takeWhile is_digit s)"
  by (induction s) auto

lemma parse_number_nonneg:
  assumes "parse_number neg body = Some (Finite neg' c e)"
  shows "0 \<le> c"
proof -
  from assms have
    "c = digits_value (takeWhile is_digit body @ []) \<or>
     (\<exists>cs. c = digits_value (takeWhile is_digit body @ takeWhile is_digit cs))"
    by (auto simp: parse_number_def Let_def split: if_splits option.splits list.splits)
  then show ?thesis
    by (auto simp: takeWhile_all_digits intro!: digits_value_nonneg)
qed

lemma decimal_of_string_nonneg:
  assumes "decimal_of_string s = Some (Finite neg c e)"
  shows "0 \<le> c"
  using assms
  by (auto simp: decimal_of_string_def Let_def split: prod.splits if_splits
      dest: parse_number_nonneg)

lemma round_half_even_cases:
  "round_half_even x = \<lfloor>x\<rfloor> \<or> round_half_even x = \<lfloor>x\<rfloor> + 1"
  by (simp add: round_half_even_def Let_def)

lemma round_half_even_nonneg:
  assumes "0 \<le> x"
  shows "0 \<le> round_half_even x"
proof -
  from assms have "0 \<le> \<lfloor>x\<rfloor>" by simp
  with round_half_even_cases [of x] show ?thesis by linarith
qed

lemma round_half_even_pos: "1 / 2 < x \<Longrightarrow> 0 < round_half_even x"
proof -
  assume h: "1 / 2 < x"
  then have f: "0 \<le> \<lfloor>x\<rfloor>" by simp
  show "0 < round_half_even x"
  proof (cases "\<lfloor>x\<rfloor> = 0")
    case True
    with h show ?thesis by (simp add: round_half_even_def Let_def)
  next
    case False
    with f have "0 < \<lfloor>x\<rfloor>" by linarith
    with round_half_even_cases [of x] show ?thesis by linarith
  qed
qed

lemma parsed_value_cases:
  assumes "parsed_value raw = Some v"
  obtains neg c e where "decimal_of_string (normalize_amount raw) = Some (Finite neg c e)"
    and "v = (if neg then - 1 else 1) * of_int c * power_int 10 e" and "0 \<le> c"
proof -
  from assms obtain neg c e where
    d: "decimal_of_string (normalize_amount raw) = Some (Finite neg c e)"
    and v: "v = (if neg then - 1 else 1) * of_int c * power_int 10 e"
    by (auto simp: parsed_value_def split: option.splits decimal.splits)
  from d have "0 \<le> c" by (rule decimal_of_string_nonneg)
  with d v that show ?thesis by blast
qed

lemma value_sign:
  fixes c :: int
  assumes "0 \<le> c"
  shows "((if neg then - 1 else 1) * of_int c * power_int (10::rat) e \<le> 0) = (neg \<or> c = 0)"
proof -
  have p: "0 < power_int (10::rat) e" by (simp add: zero_less_power_int)
  show ?thesis
  proof (cases neg)
    case True
    from assms p have "0 \<le> of_int c * power_int (10::rat) e" by simp
    with True show ?thesis by simp
  next
    case False
    from p have "\<not> power_int (10::rat) e \<le> 0" by linarith
    with False assms show ?thesis
      by (auto simp: mult_le_0_iff)
  qed
qed

lemma parse_amount_invalid:
  assumes "parsed_value raw = None"
  shows "\<exists>err. parse_amount raw = Inl err"
proof (cases "decimal_of_string (normalize_amount raw)")
  case None
  then show ?thesis by (simp add: parse_amount_def)
next
  case (Some d)
  with assms show ?thesis
    by (cases d) (auto simp: parse_amount_def parsed_value_def split: bool.splits)
qed

lemma parse_amount_nonpositive:
  assumes "parsed_value raw = Some v" and "v \<le> 0"
  shows "parse_amount raw = Inl ValueError"
proof -
  from assms(1) obtain neg c e where
    d: "decimal_of_string (normalize_amount raw) = Some (Finite neg c e)"
    and v: "v = (if neg then - 1 else 1) * of_int c * power_int 10 e" and c: "0 \<le> c"
    by (rule parsed_value_cases)
  from assms(2) v value_sign [OF c, of neg e] have "neg \<or> c = 0" by simp
  with d show ?thesis by (auto simp: parse_amount_def)
qed

lemma parse_amount_positive:
  assumes "parsed_value raw = Some v" and "0 < v"
  shows "parse_amount raw =
           (if 10 ^ 28 \<le> round_half_even (v * 100) then Inl InvalidOperation
            else Inr (Finite False (round_half_even (v * 100)) (- 2)))"
proof -
  from assms(1) obtain neg c e where
    d: "decimal_of_string (normalize_amount raw) = Some (Finite neg c e)"
    and v: "v = (if neg then - 1 else 1) * of_int c * power_int 10 e" and c: "0 \<le> c"
    by (rule parsed_value_cases)
  from assms(2) v value_sign [OF c, of neg e] have n: "\<not> neg" "c \<noteq> 0" by auto
  with v have "v = of_int c * power_int 10 e" by simp
  with d n show ?thesis by (simp add: parse_amount_def Let_def)
qed

lemma parse_amount_success:
  assumes "parse_amount raw = Inr d"
  shows "\<exists>v. parsed_value raw = Some v \<and> 0 < v \<and> round_half_even (v * 100) < 10 ^ 28 \<and>
             d = Finite False (round_half_even (v * 100)) (- 2)"
proof (cases "parsed_value raw")
  case None
  from parse_amount_invalid [OF this] assms show ?thesis by auto
next
  case (Some v)
  show ?thesis
  proof (cases "v \<le> 0")
    case True
    from parse_amount_nonpositive [OF Some this] assms show ?thesis by simp
  next
    case False
    then have "0 < v" by simp
    from parse_amount_positive [OF Some this] assms Some \<open>0 < v\<close> show ?thesis
      by (auto split: if_splits)
  qed
qed

text \<open>
  Claim C3, as the code has it. \<^verbatim>\<open>parse_amount\<close> fails whenever the text is
  not a finite decimal numeral (\<^verbatim>\<open>InvalidOperation\<close>), whenever the parsed
  value is at most 0 (\<^verbatim>\<open>ValueError\<close>), and whenever the value rounded to
  hundredths needs more than 28 digits, that is from \<open>10^26\<close> on
  (\<^verbatim>\<open>InvalidOperation\<close>). It succeeds for every numeral with a value above
  0.005 whose rounded coefficient fits 28 digits, and then returns the value rounded
  half-even to hundredths, which is strictly positive. Every result it returns has
  exponent \<open>-2\<close>, that is exactly two fractional digits, a non-negative coefficient
  below \<open>10^28\<close>, and comes from a numeral with a positive value. The three texts
  \<^verbatim>\<open>"1000"\<close>, \<^verbatim>\<open>"1000,00"\<close> and \<^verbatim>\<open>" 1000.00 "\<close> give 1000.00;
  \<^verbatim>\<open>"-5"\<close> and \<^verbatim>\<open>"abc"\<close> fail. (Nothing is said here about the
  positive values up to 0.005.)
\<close>

theorem parse_amount_validation:
  "(parsed_value raw = None \<longrightarrow> (\<exists>err. parse_amount raw = Inl err)) \<and>
   (\<forall>v. parsed_value raw = Some v \<and> v \<le> 0 \<longrightarrow> parse_amount raw = Inl ValueError) \<and>
   (\<forall>v. parsed_value raw = Some v \<and> 0 < v \<and> 10 ^ 28 \<le> round_half_even (v * 100) \<longrightarrow>
        parse_amount raw = Inl InvalidOperation) \<and>
   (\<forall>v. parsed_value raw = Some v \<and> 1 / 200 < v \<and> round_half_even (v * 100) < 10 ^ 28 \<longrightarrow>
        parse_amount raw = Inr (Finite False (round_half_even (v * 100)) (- 2)) \<and>
        0 < round_half_even (v * 100)) \<and>
   (\<forall>d. parse_amount raw = Inr d \<longrightarrow>
        (\<exists>v. parsed_value raw = Some v \<and> 0 < v \<and>
             d = Finite False (round_half_even (v * 100)) (- 2) \<and>
             0 \<le> round_half_even (v * 100) \<and> round_half_even (v * 100) < 10 ^ 28)) \<and>
   parse_amount ''1000'' = Inr (Finite False 100000 (- 2)) \<and>
   parse_amount ''1000,00'' = Inr (Finite False 100000 (- 2)) \<and>
   parse_amount '' 1000.00 '' = Inr (Finite False 100000 (- 2)) \<and>
   dec_value (Finite False 100000 (- 2)) = Some 1000 \<and>
   parse_amount ''-5'' = Inl ValueError \<and>
   parse_amount ''abc'' = Inl InvalidOperation"
proof -
  have a: "parsed_value raw = None \<longrightarrow> (\<exists>err. parse_amount raw = Inl err)"
    using parse_amount_invalid by blast
  have b: "\<forall>v. parsed_value raw = Some v \<and> v \<le> 0 \<longrightarrow> parse_amount raw = Inl ValueError"
    using parse_amount_nonpositive by blast
  have c: "\<forall>v. parsed_value raw = Some v \<and> 0 < v \<and> 10 ^ 28 \<le> round_half_even (v * 100) \<longrightarrow>
        parse_amount raw = Inl InvalidOperation"
    using parse_amount_positive by auto
  have d: "\<forall>v. parsed_value raw = Some v \<and> 1 / 200 < v \<and> round_half_even (v * 100) < 10 ^ 28 \<longrightarrow>
        parse_amount raw = Inr (Finite False (round_half_even (v * 100)) (- 2)) \<and>
        0 < round_half_even (v * 100)"
  proof (intro allI impI, elim conjE)
    fix v :: rat
    assume p: "parsed_value raw = Some v" and v: "1 / 200 < v"
      and r: "round_half_even (v * 100) < 10 ^ 28"
    from v have "0 < v" by simp
    from parse_amount_positive [OF p this] r
    have "parse_amount raw = Inr (Finite False (round_half_even (v * 100)) (- 2))" by simp
    moreover from v have "1 / 2 < v * 100" by simp
    then have "0 < round_half_even (v * 100)" by (rule round_half_even_pos)
    ultimately show "parse_amount raw = Inr (Finite False (round_half_even (v * 100)) (- 2)) \<and>
        0 < round_half_even (v * 100)" by simp
  qed
  have e: "\<forall>d. parse_amount raw = Inr d \<longrightarrow>
        (\<exists>v. parsed_value raw = Some v \<and> 0 < v \<and>
             d = Finite False (round_half_even (v * 100)) (- 2) \<and>
             0 \<le> round_half_even (v * 100) \<and> round_half_even (v * 100) < 10 ^ 28)"
  proof (intro allI impI)
    fix d
    assume "parse_amount raw = Inr d"
    from parse_amount_success [OF this] obtain v where
      v: "parsed_value raw = Some v" "0 < v" "round_half_even (v * 100) < 10 ^ 28"
      "d = Finite False (round_half_even (v * 100)) (- 2)" by blast
    from v(2) have "0 \<le> round_half_even (v * 100)"
      by (intro round_half_even_nonneg) simp
    with v show "\<exists>v. parsed_value raw = Some v \<and> 0 < v \<and>
             d = Finite False (round_half_even (v * 100)) (- 2) \<and>
             0 \<le> round_half_even (v * 100) \<and> round_half_even (v * 100) < 10 ^ 28"
      by blast
  qed
  have f1: "parse_amount ''1000'' = Inr (Finite False 100000 (- 2))" by code_simp
  have f2: "parse_amount ''1000,00'' = Inr (Finite False 100000 (- 2))" by code_simp
  have f3: "parse_amount '' 1000.00 '' = Inr (Finite False 100000 (- 2))" by code_simp
  have f4: "dec_value (Finite False 100000 (- 2)) = Some 1000" by code_simp
  have f5: "parse_amount ''-5'' = Inl ValueError" by code_simp
  have f6: "parse_amount ''abc'' = Inl InvalidOperation" by code_simp
  from a b c d e f1 f2 f3 f4 f5 f6 show ?thesis by blast
qed

theorem parse_amount_validation_witness:
  "parsed_value ''0,015'' = Some (15 / 1000) \<and> (1 / 200 :: rat) < 15 / 1000 \<and>
   round_half_even (15 / 1000 * 100) = 2 \<and>
   parse_amount ''0,015'' = Inr (Finite False 2 (- 2))"
proof -
  have p: "parsed_value ''0,015'' = Some (15 / 1000)" by code_simp
  have r: "round_half_even (15 / 1000 * 100) = 2" by code_simp
  have v: "(1 / 200 :: rat) < 15 / 1000" by simp
  from parse_amount_validation [of "''0,015''"] have
    "\<forall>v. parsed_value ''0,015'' = Some v \<and> 1 / 200 < v \<and> round_half_even (v * 100) < 10 ^ 28 \<longrightarrow>
        parse_amount ''0,015'' = Inr (Finite False (round_half_even (v * 100)) (- 2)) \<and>
        0 < round_half_even (v * 100)"
    by blast
  from this [rule_format, of "15 / 1000"] p r v
  have "parse_amount ''0,015'' = Inr (Finite False 2 (- 2))" by simp
  with p r v show ?thesis by simp
qed

text \<open>
  The statement of C3 itself fails at \<open>10^26\<close>: the text is a decimal numeral with a
  positive value, and \<^verbatim>\<open>parse_amount\<close> raises.
\<close>

theorem parse_amount_validation_counterexample:
  "parsed_value ''100000000000000000000000000'' = Some 100000000000000000000000000 \<and>
   parse_amount ''100000000000000000000000000'' = Inl InvalidOperation"
  by code_simp

text \<open>
  The comparison with 0 comes before the rounding: a positive value of at most 0.005 passes
  it and is returned as 0.00.
\<close>

lemma parse_amount_rounds_to_zero:
  "parsed_value ''0.001'' = Some (1 / 1000) \<and> parse_amount ''0.001'' = Inr (Finite False 0 (- 2))"
  by code_simp

text \<open>
  Claim C9. Every comma is read as the decimal point: \<^verbatim>\<open>parse_amount("1,000")\<close>
  is 1.00, and a text with both a comma and a dot, such as \<^verbatim>\<open>"1,000.50"\<close>, has
  two points after the replacement and fails as an invalid numeral.
\<close>

theorem comma_is_decimal_point:
  "parse_amount ''1,000'' = Inr (Finite False 100 (- 2)) \<and>
   dec_value (Finite False 100 (- 2)) = Some 1 \<and>
   parse_amount ''1,000.50'' = Inl InvalidOperation \<and>
   (CHR '','' \<in> set raw \<and> CHR ''.'' \<in> set raw \<longrightarrow> parse_amount raw = Inl InvalidOperation)"
proof -
  have "parse_amount ''1,000'' = Inr (Finite False 100 (- 2))" by code_simp
  moreover have "dec_value (Finite False 100 (- 2)) = Some 1" by code_simp
  moreover have "parse_amount ''1,000.50'' = Inl InvalidOperation" by code_simp
  ultimately show ?thesis using comma_and_dot_invalid by blast
qed

theorem comma_is_decimal_point_witness:
  "CHR '','' \<in> set ''12,5.0'' \<and> CHR ''.'' \<in> set ''12,5.0'' \<and>
   parse_amount ''12,5.0'' = Inl InvalidOperation"
  using comma_is_decimal_point [of "''12,5.0''"] by simp

section \<open>Digits, logarithms and exact decimal sums\<close>

lemma ndigits_unfold: "0 < n \<Longrightarrow> 1 < b \<Longrightarrow> ndigits b n = ndigits b (n div b) + 1"
  by (subst ndigits.simps) simp

lemma ndigits_zero: "n \<le> 0 \<Longrightarrow> ndigits b n = 0"
  by (subst ndigits.simps) simp

lemma ndigits_nonneg: "0 \<le> ndigits b n"
proof (induction b n rule: ndigits.induct)
  case (1 b n)
  show ?case
  proof (cases "0 < n \<and> 1 < b")
    case True
    with "1.IH" have "0 \<le> ndigits b (n div b)" by simp
    with True show ?thesis by (simp add: ndigits_unfold)
  next
    case False
    then have "ndigits b n = 0" by (subst ndigits.simps) auto
    then show ?thesis by simp
  qed
qed

lemma ndigits_bounds:
  "0 < n \<Longrightarrow> 1 < b \<Longrightarrow> b ^ nat (ndigits b n - 1) \<le> n \<and> n < b ^ nat (ndigits b n)"
proof (induction b n rule: ndigits.induct)
  case (1 b n)
  from "1.prems" have eq: "ndigits b n = ndigits b (n div b) + 1"
    by (simp add: ndigits_unfold)
  from "1.prems" have dnn: "0 \<le> n div b"
    by (simp add: pos_imp_zdiv_nonneg_iff)
  have split: "n = b * (n div b) + n mod b" by simp
  from "1.prems" have md: "0 \<le> n mod b" "n mod b < b" by simp_all
  show ?case
  proof (cases "n div b = 0")
    case True
    then have "ndigits b (n div b) = 0" by (simp add: ndigits_zero)
    with eq have one: "ndigits b n = 1" by simp
    from True split md have "n < b" by simp
    with one "1.prems" show ?thesis by simp
  next
    case False
    with dnn have pos: "0 < n div b" by simp
    with "1.IH" "1.prems" have
      lo: "b ^ nat (ndigits b (n div b) - 1) \<le> n div b" and
      hi: "n div b < b ^ nat (ndigits b (n div b))"
      by simp_all
    from pos "1.prems" have "ndigits b (n div b) = ndigits b (n div b div b) + 1"
      by (simp add: ndigits_unfold)
    with ndigits_nonneg [of b "n div b div b"] have m1: "1 \<le> ndigits b (n div b)" by simp
    then have suc: "nat (ndigits b (n div b)) = Suc (nat (ndigits b (n div b) - 1))" by simp
    have "b ^ nat (ndigits b n - 1) = b * b ^ nat (ndigits b (n div b) - 1)"
      using eq suc by simp
    also from lo "1.prems" have "\<dots> \<le> b * (n div b)" by simp
    also from split md have "\<dots> \<le> n" by linarith
    finally have low: "b ^ nat (ndigits b n - 1) \<le> n" .
    have "b * (n div b + 1) = b * (n div b) + b" by (simp add: algebra_simps)
    with split md have "n < b * (n div b + 1)" by linarith
    also from hi "1.prems" have "\<dots> \<le> b * b ^ nat (ndigits b (n div b))" by simp
    also have "\<dots> = b ^ nat (ndigits b n)"
      using eq m1 by (simp add: nat_add_distrib)
    finally have "n < b ^ nat (ndigits b n)" .
    with low show ?thesis by simp
  qed
qed

lemma ilog_bounds:
  assumes a0: "0 < a" and b1: "1 < b"
  shows "power_int (of_int b) (ilog b a) \<le> a \<and> a < power_int (of_int b) (ilog b a + 1)"
proof -
  obtain p q where pq: "quotient_of a = (p, q)" by (cases "quotient_of a")
  then have q0: "0 < q" by (rule quotient_of_denom_pos)
  from pq have a: "a = of_int p / of_int q" by (rule quotient_of_div)
  from a a0 q0 have p0: "0 < p" by (simp add: zero_less_divide_iff)
  from a q0 have aq: "a * of_int q = of_int p" by simp
  define B :: rat where "B = of_int b"
  from b1 have B1: "1 < B" by (simp add: B_def)
  then have B0: "0 < B" "B \<noteq> 0" by simp_all
  define np nq where "np = ndigits b p" and "nq = ndigits b q"
  from ndigits_bounds [OF p0 b1] have pb: "b ^ nat (np - 1) \<le> p" "p < b ^ nat np"
    by (simp_all add: np_def)
  from ndigits_bounds [OF q0 b1] have qb: "b ^ nat (nq - 1) \<le> q" "q < b ^ nat nq"
    by (simp_all add: nq_def)
  have np1: "1 \<le> np"
  proof (rule ccontr)
    assume "\<not> 1 \<le> np"
    then have "nat np = 0" by simp
    with pb(2) p0 show False by simp
  qed
  have nq1: "1 \<le> nq"
  proof (rule ccontr)
    assume "\<not> 1 \<le> nq"
    then have "nat nq = 0" by simp
    with qb(2) q0 show False by simp
  qed
  have conv: "power_int B m = of_int (b ^ nat m)" if "0 \<le> m" for m
    using that by (simp add: power_int_nonneg_exp B_def)
  from pb np1 have P1: "power_int B (np - 1) \<le> of_int p" and P2: "of_int p < power_int B np"
    by (simp_all add: conv)
  from qb nq1 have Q1: "power_int B (nq - 1) \<le> of_int q" and Q2: "of_int q < power_int B nq"
    by (simp_all add: conv)
  have upper: "a < power_int B (np - nq + 1)"
  proof -
    have "a * power_int B (nq - 1) \<le> a * of_int q"
      using Q1 a0 by (simp add: mult_left_mono)
    also have "\<dots> < power_int B np" using aq P2 by simp
    also have "\<dots> = power_int B (np - nq + 1) * power_int B (nq - 1)"
      using B0 by (simp flip: power_int_add)
    finally show ?thesis
      using B0 by (simp add: mult_less_cancel_right)
  qed
  have lower: "power_int B (np - nq - 1) < a"
  proof -
    have "power_int B (np - nq - 1) * of_int q < power_int B (np - nq - 1) * power_int B nq"
      using Q2 B0 by (simp add: mult_strict_left_mono)
    also have "\<dots> = power_int B (np - 1)"
      using B0 by (simp flip: power_int_add)
    also have "\<dots> \<le> a * of_int q" using P1 aq by simp
    finally show ?thesis
      using q0 by (simp add: mult_less_cancel_right)
  qed
  have il: "ilog b a = (if power_int B (np - nq) \<le> a then np - nq else np - nq - 1)"
    by (simp add: ilog_def pq Let_def np_def nq_def B_def)
  show ?thesis
  proof (cases "power_int B (np - nq) \<le> a")
    case True
    with il upper show ?thesis by (simp add: B_def)
  next
    case False
    with il lower show ?thesis by (simp add: B_def)
  qed
qed

lemma ilog_eqI:
  assumes "0 < a" and "1 < b"
    and lo: "power_int (of_int b) k \<le> a" and hi: "a < power_int (of_int b) (k + 1)"
  shows "ilog b a = k"
proof -
  define B :: rat where "B = of_int b"
  from assms(2) have B1: "1 < B" by (simp add: B_def)
  from ilog_bounds [OF assms(1,2)] have
    l: "power_int B (ilog b a) \<le> a" and h: "a < power_int B (ilog b a + 1)"
    by (simp_all add: B_def)
  from l hi have "power_int B (ilog b a) < power_int B (k + 1)" by (simp add: B_def)
  then have 1: "ilog b a < k + 1"
    using B1 by (metis linorder_not_less power_int_increasing less_imp_le leD)
  from lo h have "power_int B k < power_int B (ilog b a + 1)" by (simp add: B_def)
  then have 2: "k < ilog b a + 1"
    using B1 by (metis linorder_not_less power_int_increasing less_imp_le leD)
  from 1 2 show ?thesis by simp
qed










section \<open>The statistics of a user\<close>








section \<open>Sums and balance\<close>







section \<open>The return on investment\<close>





text \<open>
  The recomputation can raise when \<open>0 < D\<close>: a withdrawal of \<open>10^25\<close> after a deposit
  of 0.50 gives an ROI whose two-place rounding needs more than 28 digits.
\<close>

lemma rebuild_can_raise:
  "add_transaction
     \<lparr>transactions =
        [\<lparr>tx_user = 1, tx_type = Deposit, tx_amount = 1 / 2, tx_time = ''t1''\<rparr>],
      summary =
        [\<lparr>s_user = 1, s_deposits = 1 / 2, s_withdrawals = 0, s_balance = 1 / 2,
          s_roi = - 100, s_updated = ''t1''\<rparr>]\<rparr>
     1 Withdraw 10000000000000000000000000 ''t2'' ''t2'' = Inl InvalidOperation"
  by code_simp

section \<open>Amounts in float cells\<close>




end
